theory Spec2Isabelle
  imports
    Main
    "HOL-Library.Char_ord"
    "HOL-Library.List_Lexorder"
    "HOL-Library.Product_Lexorder"
    "HOL-Library.Sublist"
begin

section \<open>Python values\<close>

text \<open>
  Python strings are modelled as HOL strings whose characters are the code points below
  256 (Latin-1), ordered by code point (\<open>Char_ord\<close>) and compared lexicographically
  (\<open>List_Lexorder\<close>), as Python compares \<open>str\<close>. Tuples compare lexicographically
  (\<open>Product_Lexorder\<close>). Python integers are \<open>int\<close>.
\<close>

text \<open>\<open>str.lower()\<close>: on Latin-1 the cased letters are A-Z and the accented capitals
  0xC0-0xDE without the multiplication sign 0xD7; each maps to the code point 32 above.\<close>

definition py_lower_char :: "char \<Rightarrow> char" where
  "py_lower_char c =
     (let n = (of_char c :: nat)
      in if (65 \<le> n \<and> n \<le> 90) \<or> (192 \<le> n \<and> n \<le> 222 \<and> n \<noteq> 215)
         then char_of (n + 32) else c)"

definition py_lower :: "string \<Rightarrow> string" where
  "py_lower s = map py_lower_char s"

definition is_ascii_digit :: "char \<Rightarrow> bool" where
  "is_ascii_digit c = (48 \<le> (of_char c :: nat) \<and> (of_char c :: nat) \<le> 57)"

text \<open>The characters that \<open>int()\<close> strips around a number: tab, line feed, vertical tab,
  form feed, carriage return, space, and the Latin-1 spaces 0x85 and 0xA0.\<close>

definition int_space :: "char \<Rightarrow> bool" where
  "int_space c = ((of_char c :: nat) \<in> {9, 10, 11, 12, 13, 32, 133, 160})"

text \<open>The digits of a decimal literal: at least one digit, single underscores allowed
  between digits only. \<open>prev\<close> records that the previous character was a digit.\<close>

fun digits_value :: "string \<Rightarrow> nat \<Rightarrow> bool \<Rightarrow> nat option" where
  "digits_value [] acc prev = (if prev then Some acc else None)"
| "digits_value (c # cs) acc prev =
     (if is_ascii_digit c then digits_value cs (10 * acc + (of_char c - 48)) True
      else if c = CHR ''_'' \<and> prev then digits_value cs acc False
      else None)"

section \<open>JSON values and HTTP responses\<close>

text \<open>
  What \<open>r.json()\<close> returns. A dictionary is an association list read with \<open>map_of\<close>;
  JSON numbers are Python integers (fractional numbers are not represented).
\<close>

datatype json =
    JNull
  | JBool bool
  | JInt int
  | JStr string
  | JArr "json list"
  | JObj "(string \<times> json) list"

text \<open>Python truth value of a JSON value, as tested by \<open>if x\<close> and \<open>not x\<close>.\<close>

fun truthy :: "json \<Rightarrow> bool" where
  "truthy JNull = False"
| "truthy (JBool b) = b"
| "truthy (JInt i) = (i \<noteq> 0)"
| "truthy (JStr s) = (s \<noteq> [])"
| "truthy (JArr xs) = (xs \<noteq> [])"
| "truthy (JObj kvs) = (kvs \<noteq> [])"

text \<open>
  A \<open>requests.Response\<close>, reduced to what the code reads: the status code, the
  \<open>Retry-After\<close> header (absent or a string), and the decoded body (\<open>None\<close> when the body
  is not JSON, in which case \<open>r.json()\<close> raises).
\<close>

record response =
  status_code :: int
  retry_after_header :: "string option"
  json_body :: "json option"

text \<open>
  The exceptions that can leave the modelled functions. \<open>RequestException name resp\<close> is
  any exception of the \<open>requests\<close> hierarchy, with its class name and its \<open>response\<close>
  attribute. \<open>RuntimeError_retries e\<close> is the error of line 65 of \<open>setlist_api.py\<close>,
  raised while handling \<open>e\<close> and embedding it in its message; \<open>RuntimeError_max\<close> is the
  error of line 68, raised outside any handler with a fixed message.
  \<open>Unmodelled\<close> marks the two places where the model does not decide what Python does:
  the element-wise comparison of two lists in the pagination test, and a sleep so long
  that its deadline may overflow the clock.
\<close>

datatype exc =
    RequestException string "response option"
  | ValueError
  | TypeError
  | AttributeError
  | OverflowError
  | JSONDecodeError
  | RuntimeError_retries exc
  | RuntimeError_max
  | Unmodelled

definition HTTPError :: "response \<Rightarrow> exc" where
  "HTTPError r = RequestException ''HTTPError'' (Some r)"


text \<open>\<open>int(s)\<close> on a string: surrounding whitespace, an optional sign, decimal digits.
  A literal of more than 4300 digits (underscores not counted, leading zeros counted) is
  refused with \<open>ValueError\<close>: the default of \<open>sys.int_max_str_digits\<close>.\<close>

definition INT_MAX_STR_DIGITS :: nat where
  "INT_MAX_STR_DIGITS = 4300"

definition py_int :: "string \<Rightarrow> exc + int" where
  "py_int s =
     (let t = rev (dropWhile int_space (rev (dropWhile int_space s)));
          signed = (case t of
                      c # cs \<Rightarrow> if c = CHR ''-'' then (- 1, cs)
                                else if c = CHR ''+'' then (1, cs) else (1, t)
                    | [] \<Rightarrow> (1 :: int, t))
      in if INT_MAX_STR_DIGITS < length (filter is_ascii_digit (snd signed))
         then Inl ValueError
         else (case digits_value (snd signed) 0 False of
                 None \<Rightarrow> Inl ValueError
               | Some v \<Rightarrow> Inr (fst signed * int v)))"

text \<open>\<open>str.isdigit()\<close>: non-empty and every character a digit; on Latin-1 these are 0-9 and
  the superscripts 0xB2, 0xB3, 0xB9 (which \<open>int()\<close> rejects).\<close>

definition py_isdigit :: "string \<Rightarrow> bool" where
  "py_isdigit s =
     (s \<noteq> [] \<and> list_all (\<lambda>c. is_ascii_digit c \<or> (of_char c :: nat) \<in> {178, 179, 185}) s)"

text \<open>\<open>str(i)\<close> on an integer.\<close>

fun nat_digits :: "nat \<Rightarrow> string" where
  "nat_digits n =
     (if n < 10 then [char_of (48 + n)]
      else nat_digits (n div 10) @ [char_of (48 + n mod 10)])"

declare nat_digits.simps [simp del]

definition py_str :: "int \<Rightarrow> string" where
  "py_str i = (if i < 0 then CHR ''-'' # nat_digits (nat (- i)) else nat_digits (nat i))"

text \<open>\<open>obj.get(k, dflt)\<close>: only a dictionary has \<open>get\<close>.\<close>

definition py_get :: "json \<Rightarrow> string \<Rightarrow> json \<Rightarrow> exc + json" where
  "py_get obj k dflt =
     (case obj of
        JObj kvs \<Rightarrow> Inr (case map_of kvs k of None \<Rightarrow> dflt | Some v \<Rightarrow> v)
      | _ \<Rightarrow> Inl AttributeError)"

text \<open>The items a \<open>for\<close> loop visits: the elements of a list, the characters of a string,
  the keys of a dictionary; anything else is not iterable.\<close>

definition py_iter :: "json \<Rightarrow> exc + json list" where
  "py_iter v =
     (case v of
        JArr xs \<Rightarrow> Inr xs
      | JStr s \<Rightarrow> Inr (map (\<lambda>c. JStr [c]) s)
      | JObj kvs \<Rightarrow> Inr (map JStr (remdups (map fst kvs)))
      | _ \<Rightarrow> Inl TypeError)"

definition py_len :: "json \<Rightarrow> exc + nat" where
  "py_len v =
     (case v of
        JStr s \<Rightarrow> Inr (length s)
      | JArr xs \<Rightarrow> Inr (length xs)
      | JObj kvs \<Rightarrow> Inr (length (remdups (map fst kvs)))
      | _ \<Rightarrow> Inl TypeError)"

definition py_number :: "json \<Rightarrow> int option" where
  "py_number v =
     (case v of JInt i \<Rightarrow> Some i | JBool b \<Rightarrow> Some (if b then 1 else 0) | _ \<Rightarrow> None)"

section \<open>utils.py: top_songs\<close>

text \<open>
  \<^verbatim>\<open>
  def top_songs(songs, n=20):
      counter = collections.Counter(songs)
      return [t[0] for t in sorted(counter.items(),
                                   key=lambda kv: (-kv[1], kv[0].lower()))[:n]]
  \<close>
  \<open>Counter(songs)\<close> is a dictionary in insertion order: each title is entered at its first
  occurrence and its count incremented in place afterwards. \<open>sorted\<close> with a key is a
  stable sort by that key, which is what \<open>sort_key\<close> is. \<open>xs[:n]\<close> with a negative
  \<open>n\<close> drops the last \<open>-n\<close> items.
\<close>

fun counter_add :: "(string \<times> nat) list \<Rightarrow> string \<Rightarrow> (string \<times> nat) list" where
  "counter_add [] x = [(x, 1)]"
| "counter_add ((k, c) # kvs) x =
     (if k = x then (k, c + 1) # kvs else (k, c) # counter_add kvs x)"

definition Counter :: "string list \<Rightarrow> (string \<times> nat) list" where
  "Counter songs = foldl counter_add [] songs"

definition slice_to :: "int \<Rightarrow> 'a list \<Rightarrow> 'a list" where
  "slice_to n xs =
     (if 0 \<le> n then take (nat n) xs else take (length xs - nat (- n)) xs)"

definition sort_key_fn :: "string \<times> nat \<Rightarrow> int \<times> string" where
  "sort_key_fn kv = (- int (snd kv), py_lower (fst kv))"

definition top_songs :: "string list \<Rightarrow> int \<Rightarrow> string list" where
  "top_songs songs n = map fst (slice_to n (sort_key sort_key_fn (Counter songs)))"

text \<open>Notions used to state the properties of \<open>top_songs\<close>: the list before the slice,
  the sort key of a title of a given song list, the titles in order of first occurrence,
  and \<open>a\<close> standing before the (first) \<open>b\<close> in a list.\<close>

definition ranking :: "string list \<Rightarrow> string list" where
  "ranking songs = map fst (sort_key sort_key_fn (Counter songs))"

definition rank_key :: "string list \<Rightarrow> string \<Rightarrow> int \<times> string" where
  "rank_key songs t = (- int (count_list songs t), py_lower t)"

definition first_occurrences :: "'a list \<Rightarrow> 'a list" where
  "first_occurrences xs = rev (remdups (rev xs))"

definition precedes :: "'a \<Rightarrow> 'a \<Rightarrow> 'a list \<Rightarrow> bool" where
  "precedes a b xs = (b \<in> set xs \<and> a \<in> set (takeWhile (\<lambda>x. x \<noteq> b) xs))"

section \<open>setlist_api.py: make_request\<close>

text \<open>
  The network is a function from the number of requests already sent and the request to
  what \<open>requests.get\<close> does with it: return a response or raise an exception of the
  \<open>requests\<close> hierarchy. The state threaded through the code is the log of requests sent
  and the log of \<open>time.sleep\<close> durations.
\<close>

record request =
  url :: string
  params :: "(string \<times> json) list"
  timeout :: int

datatype outcome = Responds response | Raises string "response option"

type_synonym net = "nat \<Rightarrow> request \<Rightarrow> outcome"

record world =
  sent :: "request list"
  sleeps :: "int list"

definition BASE :: string where
  "BASE = ''https://api.setlist.fm/rest/1.0''"

definition RATE_LIMIT_DELAY :: int where
  "RATE_LIMIT_DELAY = 1"

definition MAX_RETRIES :: nat where
  "MAX_RETRIES = 3"

text \<open>
  \<open>time.sleep(secs)\<close> on an integer, as CPython 3.11 does it on Linux. A negative
  duration raises \<open>ValueError\<close>. The duration is converted to nanoseconds in a signed
  64-bit integer; when it does not fit (more than \<open>SLEEP_MAX\<close> seconds) the conversion
  raises \<open>OverflowError\<close>. The call then waits until the deadline, the reading of the
  monotonic clock plus the duration, and the operating system refuses a deadline that
  overflows the 64 bits (\<open>OSError\<close>, errno 22). The clock is not part of the model: its
  reading is taken to be at most \<open>MONOTONIC_MAX\<close> nanoseconds (2 to the power 62, an uptime
  of 146 years). Up to \<open>SLEEP_SAFE\<close> seconds the deadline fits whatever the reading is,
  and the call sleeps. Between \<open>SLEEP_SAFE\<close> and \<open>SLEEP_MAX\<close> whether the call sleeps
  or raises \<open>OSError\<close> depends on the reading, and the model does not decide it
  (\<open>Unmodelled\<close>).
\<close>

definition INT64_MAX :: int where
  "INT64_MAX = 9223372036854775807"

definition MONOTONIC_MAX :: int where
  "MONOTONIC_MAX = 4611686018427387904"

definition SLEEP_MAX :: int where
  "SLEEP_MAX = 9223372036"

definition SLEEP_SAFE :: int where
  "SLEEP_SAFE = 4611686018"

definition time_sleep :: "int \<Rightarrow> world \<Rightarrow> exc + world" where
  "time_sleep secs w =
     (if secs < 0 then Inl ValueError
      else if INT64_MAX < secs * 1000000000 then Inl OverflowError
      else if INT64_MAX < MONOTONIC_MAX + secs * 1000000000 then Inl Unmodelled
      else Inr (w\<lparr>sleeps := sleeps w @ [secs]\<rparr>))"

definition requests_get :: "net \<Rightarrow> request \<Rightarrow> world \<Rightarrow> outcome \<times> world" where
  "requests_get net rq w = (net (length (sent w)) rq, w\<lparr>sent := sent w @ [rq]\<rparr>)"

text \<open>
  \<open>Response.raise_for_status\<close> raises \<open>HTTPError(response=self)\<close> for a status from 400
  to 599. \<open>Response.__bool__\<close> returns \<open>self.ok\<close>, which is true exactly when
  \<open>raise_for_status\<close> does not raise (\<open>requests/models.py\<close>).
\<close>

definition raise_for_status :: "response \<Rightarrow> exc option" where
  "raise_for_status r =
     (if 400 \<le> status_code r \<and> status_code r < 600 then Some (HTTPError r) else None)"

definition response_bool :: "response \<Rightarrow> bool" where
  "response_bool r = (raise_for_status r = None)"

text \<open>
  \<^verbatim>\<open>
  def make_request(url, params=None, timeout=20):
      retry_after = RATE_LIMIT_DELAY
      attempts = 0
      while attempts < MAX_RETRIES:
          try:
              r = requests.get(url, params=params, headers=HEADERS, timeout=timeout)
              if r.status_code == 429:
                  retry_after = int(r.headers.get('Retry-After', retry_after * 2))
                  time.sleep(retry_after)
                  attempts += 1
                  continue
              r.raise_for_status()
              time.sleep(RATE_LIMIT_DELAY)
              return r
          except requests.exceptions.RequestException as e:
              if hasattr(e, 'response') and e.response and e.response.status_code != 429:
                  raise
              if attempts >= MAX_RETRIES - 1:
                  raise RuntimeError(f"Failed to make request after {MAX_RETRIES} retries: {e}")
              attempts += 1
      raise RuntimeError("Failed to make request after max retries")
  \<close>
  One pass through the loop body either returns, raises, or goes round again with a new
  \<open>retry_after\<close> (both ways of going round add one to \<open>attempts\<close>).
\<close>

datatype attempt = Return response | Raise exc | Continue int

definition except_RequestException :: "exc \<Rightarrow> int \<Rightarrow> nat \<Rightarrow> attempt" where
  "except_RequestException e retry_after attempts =
     (if (case e of
            RequestException _ (Some r) \<Rightarrow> response_bool r \<and> status_code r \<noteq> 429
          | _ \<Rightarrow> False)
      then Raise e
      else if attempts \<ge> MAX_RETRIES - 1 then Raise (RuntimeError_retries e)
      else Continue retry_after)"

definition retry_after_value :: "response \<Rightarrow> int \<Rightarrow> exc + int" where
  "retry_after_value r retry_after =
     (case retry_after_header r of
        None \<Rightarrow> Inr (retry_after * 2)
      | Some s \<Rightarrow> py_int s)"

definition attempt_once :: "net \<Rightarrow> request \<Rightarrow> int \<Rightarrow> nat \<Rightarrow> world \<Rightarrow> attempt \<times> world" where
  "attempt_once net rq retry_after attempts w =
     (case requests_get net rq w of
        (Raises name resp, w1) \<Rightarrow>
          (except_RequestException (RequestException name resp) retry_after attempts, w1)
      | (Responds r, w1) \<Rightarrow>
          if status_code r = 429 then
            (case retry_after_value r retry_after of
               Inl e \<Rightarrow> (Raise e, w1)
             | Inr ra \<Rightarrow>
                 (case time_sleep ra w1 of
                    Inl e \<Rightarrow> (Raise e, w1)
                  | Inr w2 \<Rightarrow> (Continue ra, w2)))
          else
            (case raise_for_status r of
               Some e \<Rightarrow> (except_RequestException e retry_after attempts, w1)
             | None \<Rightarrow>
                 (case time_sleep RATE_LIMIT_DELAY w1 of
                    Inl e \<Rightarrow> (Raise e, w1)
                  | Inr w2 \<Rightarrow> (Return r, w2))))"

function make_request_loop ::
  "net \<Rightarrow> request \<Rightarrow> int \<Rightarrow> nat \<Rightarrow> world \<Rightarrow> (exc + response) \<times> world" where
  "make_request_loop net rq retry_after attempts w =
     (if attempts < MAX_RETRIES then
        (case attempt_once net rq retry_after attempts w of
           (Return r, w') \<Rightarrow> (Inr r, w')
         | (Raise e, w') \<Rightarrow> (Inl e, w')
         | (Continue ra, w') \<Rightarrow> make_request_loop net rq ra (attempts + 1) w')
      else (Inl RuntimeError_max, w))"
  by pat_completeness auto
termination
  by (relation "measure (\<lambda>(net, rq, retry_after, attempts, w). MAX_RETRIES - attempts)") auto

declare make_request_loop.simps [simp del]

definition make_request :: "net \<Rightarrow> request \<Rightarrow> world \<Rightarrow> (exc + response) \<times> world" where
  "make_request net rq w = make_request_loop net rq RATE_LIMIT_DELAY 0 w"

section \<open>setlist_api.py: _extract_songs_from_setlist\<close>

text \<open>
  \<^verbatim>\<open>
  def _extract_songs_from_setlist(setlist):
      songs = []
      sets_data = setlist.get("sets", {})
      sets = sets_data.get("set", [])
      if not isinstance(sets, list):
          sets = [sets] if sets else []
      for set_data in sets:
          if not set_data:
              continue
          set_songs = set_data.get("song", [])
          for song in set_songs:
              name = song.get("name")
              if name and not song.get("tape"):
                  songs.append(name)
      return songs
  \<close>
  (The leading underscore of the Python name is dropped.)
\<close>

definition song_title :: "json \<Rightarrow> exc + json option" where
  "song_title song =
     (case py_get song ''name'' JNull of
        Inl e \<Rightarrow> Inl e
      | Inr name \<Rightarrow>
          if truthy name then
            (case py_get song ''tape'' JNull of
               Inl e \<Rightarrow> Inl e
             | Inr tape \<Rightarrow> Inr (if \<not> truthy tape then Some name else None))
          else Inr None)"

fun songs_loop :: "json list \<Rightarrow> json list \<Rightarrow> exc + json list" where
  "songs_loop [] songs = Inr songs"
| "songs_loop (song # rest) songs =
     (case song_title song of
        Inl e \<Rightarrow> Inl e
      | Inr None \<Rightarrow> songs_loop rest songs
      | Inr (Some name) \<Rightarrow> songs_loop rest (songs @ [name]))"

fun sets_loop :: "json list \<Rightarrow> json list \<Rightarrow> exc + json list" where
  "sets_loop [] songs = Inr songs"
| "sets_loop (set_data # rest) songs =
     (if \<not> truthy set_data then sets_loop rest songs
      else
        (case py_get set_data ''song'' (JArr []) of
           Inl e \<Rightarrow> Inl e
         | Inr set_songs \<Rightarrow>
             (case py_iter set_songs of
                Inl e \<Rightarrow> Inl e
              | Inr items \<Rightarrow>
                  (case songs_loop items songs of
                     Inl e \<Rightarrow> Inl e
                   | Inr songs' \<Rightarrow> sets_loop rest songs'))))"

definition normalize_sets :: "json \<Rightarrow> json list" where
  "normalize_sets sets =
     (case sets of
        JArr xs \<Rightarrow> xs
      | _ \<Rightarrow> if truthy sets then [sets] else [])"

definition extract_songs_from_setlist :: "json \<Rightarrow> exc + json list" where
  "extract_songs_from_setlist setlist =
     (case py_get setlist ''sets'' (JObj []) of
        Inl e \<Rightarrow> Inl e
      | Inr sets_data \<Rightarrow>
          (case py_get sets_data ''set'' (JArr []) of
             Inl e \<Rightarrow> Inl e
           | Inr sets \<Rightarrow> sets_loop (normalize_sets sets) []))"

text \<open>
  The shape of a setlist on which the extraction is defined, and the titles it then
  yields, written without the loops: a song entry contributes its name when the name is
  truthy and the entry carries no truthy \<open>tape\<close> field.
\<close>

definition is_object :: "json \<Rightarrow> bool" where
  "is_object v = (case v of JObj kvs \<Rightarrow> True | _ \<Rightarrow> False)"

definition field :: "json \<Rightarrow> string \<Rightarrow> json option" where
  "field v k = (case v of JObj kvs \<Rightarrow> map_of kvs k | _ \<Rightarrow> None)"

definition included_title :: "json \<Rightarrow> json option" where
  "included_title song =
     (case field song ''name'' of
        None \<Rightarrow> None
      | Some name \<Rightarrow>
          if truthy name \<and> \<not> (case field song ''tape'' of None \<Rightarrow> False | Some t \<Rightarrow> truthy t)
          then Some name else None)"

definition set_songs_of :: "json \<Rightarrow> json list option" where
  "set_songs_of set_data =
     (case field set_data ''song'' of
        None \<Rightarrow> Some []
      | Some v \<Rightarrow> (case py_iter v of Inl e \<Rightarrow> None | Inr items \<Rightarrow> Some items))"

definition wf_set :: "json \<Rightarrow> bool" where
  "wf_set set_data =
     (\<not> truthy set_data \<or>
      (is_object set_data \<and>
       (case set_songs_of set_data of None \<Rightarrow> False | Some items \<Rightarrow> list_all is_object items)))"

definition set_titles :: "json \<Rightarrow> json list" where
  "set_titles set_data =
     (if truthy set_data
      then (case set_songs_of set_data of
              None \<Rightarrow> []
            | Some items \<Rightarrow> List.map_filter included_title items)
      else [])"

definition set_groups :: "json \<Rightarrow> json list option" where
  "set_groups setlist =
     (if is_object setlist then
        (case field setlist ''sets'' of
           None \<Rightarrow> Some []
         | Some sets_data \<Rightarrow>
             if is_object sets_data then
               (case field sets_data ''set'' of
                  None \<Rightarrow> Some []
                | Some sets \<Rightarrow> Some (normalize_sets sets))
             else None)
      else None)"

definition wf_setlist :: "json \<Rightarrow> bool" where
  "wf_setlist setlist =
     (case set_groups setlist of None \<Rightarrow> False | Some groups \<Rightarrow> list_all wf_set groups)"

definition setlist_titles :: "json \<Rightarrow> json list" where
  "setlist_titles setlist =
     (case set_groups setlist of None \<Rightarrow> [] | Some groups \<Rightarrow> concat (map set_titles groups))"

section \<open>setlist_api.py: fetch_setlists_for_year\<close>

text \<open>
  \<^verbatim>\<open>
  def fetch_setlists_for_year(mbid, year, max_pages=50):
      songs = []
      target_year = str(year)
      for page_num in range(1, max_pages + 1):
          r = make_request(f"{BASE}/artist/{mbid}/setlists",
                           params={"p": page_num}, timeout=30)
          if r.status_code == 404:
              break
          data = r.json()
          setlists = data.get("setlist", [])
          if not setlists:
              break
          older_than_year = False
          page_song_count = 0
          for setlist in setlists:
              event_date = setlist.get("eventDate", "")
              if len(event_date) >= 10:
                  setlist_year = event_date[-4:]
                  if setlist_year == target_year:
                      setlist_songs = _extract_songs_from_setlist(setlist)
                      songs.extend(setlist_songs)
                      page_song_count += len(setlist_songs)
                  elif setlist_year.isdigit() and int(setlist_year) < year:
                      older_than_year = True
          if older_than_year:
              break
          total = data.get("total", 0)
          items_per_page = data.get("itemsPerPage", 20)
          if page_num * items_per_page >= total:
              break
      return songs
  \<close>
  \<open>page_song_count\<close> is only logged and is left out. The accumulator of the inner loop
  is the pair of \<open>songs\<close> and \<open>older_than_year\<close>. An event date that is a list of ten
  or more items reaches \<open>isdigit\<close> on a list (\<open>AttributeError\<close>); one that is a
  dictionary of ten or more keys fails at the slice (\<open>TypeError\<close>, up to Python 3.11).
\<close>

definition process_setlist :: "int \<Rightarrow> json \<Rightarrow> json list \<times> bool \<Rightarrow> exc + json list \<times> bool" where
  "process_setlist year setlist acc =
     (case py_get setlist ''eventDate'' (JStr []) of
        Inl e \<Rightarrow> Inl e
      | Inr event_date \<Rightarrow>
          (case py_len event_date of
             Inl e \<Rightarrow> Inl e
           | Inr n \<Rightarrow>
               if n \<ge> 10 then
                 (case event_date of
                    JStr s \<Rightarrow>
                      (let setlist_year = drop (length s - 4) s in
                       if setlist_year = py_str year then
                         (case extract_songs_from_setlist setlist of
                            Inl e \<Rightarrow> Inl e
                          | Inr setlist_songs \<Rightarrow> Inr (fst acc @ setlist_songs, snd acc))
                       else if py_isdigit setlist_year then
                         (case py_int setlist_year of
                            Inl e \<Rightarrow> Inl e
                          | Inr y \<Rightarrow> Inr (fst acc, if y < year then True else snd acc))
                       else Inr acc)
                  | JArr xs \<Rightarrow> Inl AttributeError
                  | _ \<Rightarrow> Inl TypeError)
               else Inr acc))"

fun setlists_loop :: "int \<Rightarrow> json list \<Rightarrow> json list \<times> bool \<Rightarrow> exc + json list \<times> bool" where
  "setlists_loop year [] acc = Inr acc"
| "setlists_loop year (setlist # rest) acc =
     (case process_setlist year setlist acc of
        Inl e \<Rightarrow> Inl e
      | Inr acc' \<Rightarrow> setlists_loop year rest acc')"

text \<open>The test \<open>page_num * items_per_page >= total\<close>: on numbers it is integer arithmetic,
  on two strings repetition and string comparison, on two lists the comparison is not
  evaluated by the model, on anything else Python raises \<open>TypeError\<close>.\<close>

definition end_of_results :: "int \<Rightarrow> json \<Rightarrow> exc + bool" where
  "end_of_results page_num data =
     (case py_get data ''total'' (JInt 0) of
        Inl e \<Rightarrow> Inl e
      | Inr total_results \<Rightarrow>
          (case py_get data ''itemsPerPage'' (JInt 20) of
             Inl e \<Rightarrow> Inl e
           | Inr items_per_page \<Rightarrow>
               (case (py_number items_per_page, py_number total_results) of
                  (Some i, Some t) \<Rightarrow> Inr (page_num * i \<ge> t)
                | _ \<Rightarrow>
                   (case (items_per_page, total_results) of
                      (JStr s, JStr t) \<Rightarrow> Inr (concat (replicate (nat page_num) s) \<ge> t)
                    | (JArr xs, JArr ys) \<Rightarrow> Inl Unmodelled
                    | _ \<Rightarrow> Inl TypeError))))"

definition setlists_request :: "string \<Rightarrow> int \<Rightarrow> request" where
  "setlists_request mbid page_num =
     \<lparr>url = BASE @ ''/artist/'' @ mbid @ ''/setlists'',
      params = [(''p'', JInt page_num)], timeout = 30\<rparr>"

function fetch_pages ::
  "net \<Rightarrow> string \<Rightarrow> int \<Rightarrow> int \<Rightarrow> int \<Rightarrow> json list \<Rightarrow> world \<Rightarrow> (exc + json list) \<times> world" where
  "fetch_pages net mbid year max_pages page_num songs w =
     (if page_num \<le> max_pages then
        (case make_request net (setlists_request mbid page_num) w of
           (Inl e, w') \<Rightarrow> (Inl e, w')
         | (Inr r, w') \<Rightarrow>
             if status_code r = 404 then (Inr songs, w')
             else
               (case json_body r of
                  None \<Rightarrow> (Inl JSONDecodeError, w')
                | Some data \<Rightarrow>
                    (case py_get data ''setlist'' (JArr []) of
                       Inl e \<Rightarrow> (Inl e, w')
                     | Inr setlists \<Rightarrow>
                         if \<not> truthy setlists then (Inr songs, w')
                         else
                           (case py_iter setlists of
                              Inl e \<Rightarrow> (Inl e, w')
                            | Inr items \<Rightarrow>
                                (case setlists_loop year items (songs, False) of
                                   Inl e \<Rightarrow> (Inl e, w')
                                 | Inr (songs', older_than_year) \<Rightarrow>
                                     if older_than_year then (Inr songs', w')
                                     else
                                       (case end_of_results page_num data of
                                          Inl e \<Rightarrow> (Inl e, w')
                                        | Inr True \<Rightarrow> (Inr songs', w')
                                        | Inr False \<Rightarrow>
                                            fetch_pages net mbid year max_pages (page_num + 1) songs' w'))))))
      else (Inr songs, w))"
  by pat_completeness auto
termination
  by (relation "measure (\<lambda>(net, mbid, year, max_pages, page_num, songs, w). nat (max_pages + 1 - page_num))") auto

declare fetch_pages.simps [simp del]

definition fetch_setlists_for_year ::
  "net \<Rightarrow> string \<Rightarrow> int \<Rightarrow> int \<Rightarrow> world \<Rightarrow> (exc + json list) \<times> world" where
  "fetch_setlists_for_year net mbid year max_pages w = fetch_pages net mbid year max_pages 1 [] w"

text \<open>A setlist entry that sets the older-data flag: its event date is a string of at
  least ten characters whose last four characters pass \<open>isdigit\<close> and convert to an
  integer below the target year.\<close>

definition older_entry :: "int \<Rightarrow> json \<Rightarrow> bool" where
  "older_entry year setlist =
     (case field setlist ''eventDate'' of
        Some (JStr s) \<Rightarrow>
          10 \<le> length s \<and> py_isdigit (drop (length s - 4) s) \<and>
          (case py_int (drop (length s - 4) s) of Inl e \<Rightarrow> False | Inr y \<Rightarrow> y < year)
      | _ \<Rightarrow> False)"

section \<open>Example inputs\<close>

text \<open>The inputs of the repository's tests: an empty world, a request, responses with a
  given status, the sample setlist with two songs, and pages of the setlists endpoint.\<close>

definition w0 :: world where
  "w0 = \<lparr>sent = [], sleeps = []\<rparr>"

definition test_request :: request where
  "test_request = \<lparr>url = ''https://test.url'', params = [], timeout = 20\<rparr>"

definition status_response :: "int \<Rightarrow> response" where
  "status_response s = \<lparr>status_code = s, retry_after_header = None, json_body = None\<rparr>"

definition net_always :: "response \<Rightarrow> net" where
  "net_always r = (\<lambda>n rq. Responds r)"


definition sample_setlist :: "string \<Rightarrow> json" where
  "sample_setlist event_date =
     JObj [(''sets'', JObj [(''set'', JArr [JObj [(''song'',
              JArr [JObj [(''name'', JStr ''Song 1'')], JObj [(''name'', JStr ''Song 2'')]])]])]),
           (''eventDate'', JStr event_date)]"

definition page_response :: "int \<Rightarrow> json list \<Rightarrow> response" where
  "page_response total_results setlists =
     \<lparr>status_code = 200, retry_after_header = None,
      json_body = Some (JObj [(''setlist'', JArr setlists), (''total'', JInt total_results),
                              (''itemsPerPage'', JInt 20)])\<rparr>"

definition net_two_pages :: net where
  "net_two_pages = net_always (page_response 40 [sample_setlist ''15-10-2023''])"

definition net_second_page_404 :: net where
  "net_second_page_404 =
     (\<lambda>n rq. if params rq = [(''p'', JInt 1)]
              then Responds (page_response 40 [sample_setlist ''15-10-2023''])
              else Responds (status_response 404))"

definition net_older_on_second_page :: net where
  "net_older_on_second_page =
     (\<lambda>n rq. if params rq = [(''p'', JInt 1)]
              then Responds (page_response 400 [sample_setlist ''15-10-2023''])
              else Responds (page_response 400
                     [sample_setlist ''14-10-2023'', sample_setlist ''31-12-2022'']))"

section \<open>Properties of top_songs\<close>

lemma first_occurrences_snoc:
  "first_occurrences (xs @ [x]) =
     (if x \<in> set xs then first_occurrences xs else first_occurrences xs @ [x])"
  by (simp add: first_occurrences_def)

lemma set_first_occurrences: "set (first_occurrences xs) = set xs"
  by (simp add: first_occurrences_def)

lemma distinct_first_occurrences: "distinct (first_occurrences xs)"
  by (simp add: first_occurrences_def)

lemma counter_add_tally:
  "distinct ks \<Longrightarrow>
   counter_add (map (\<lambda>k. (k, f k)) ks) x =
     (if x \<in> set ks then map (\<lambda>k. (k, (f(x := f x + 1)) k)) ks
      else map (\<lambda>k. (k, f k)) ks @ [(x, 1)])"
  by (induction ks) auto

lemma Counter_snoc: "Counter (xs @ [x]) = counter_add (Counter xs) x"
  by (simp add: Counter_def)

lemma Counter_tally:
  "Counter xs = map (\<lambda>k. (k, count_list xs k)) (first_occurrences xs)"
proof (induction xs rule: rev_induct)
  case Nil
  show ?case by (simp add: Counter_def first_occurrences_def)
next
  case (snoc x xs)
  have d: "distinct (first_occurrences xs)" by (rule distinct_first_occurrences)
  show ?case
  proof (cases "x \<in> set xs")
    case True
    then show ?thesis
      using snoc counter_add_tally [OF d, of "count_list xs" x]
      by (simp add: Counter_snoc first_occurrences_snoc set_first_occurrences fun_upd_def)
  next
    case False
    then show ?thesis
      using snoc counter_add_tally [OF d, of "count_list xs" x]
      by (auto simp: Counter_snoc first_occurrences_snoc set_first_occurrences)
  qed
qed

lemma map_fst_Counter: "map fst (Counter xs) = first_occurrences xs"
  by (simp add: Counter_tally comp_def)

lemma Counter_count: "kv \<in> set (Counter xs) \<Longrightarrow> snd kv = count_list xs (fst kv)"
  by (auto simp: Counter_tally)

lemma length_Counter: "length (Counter xs) = card (set xs)"
  using distinct_card [OF distinct_first_occurrences, of xs]
  by (simp add: Counter_tally set_first_occurrences)

lemma top_songs_ranking: "top_songs songs n = slice_to n (ranking songs)"
  by (simp add: top_songs_def ranking_def slice_to_def take_map)

lemma length_ranking: "length (ranking songs) = card (set songs)"
  by (simp add: ranking_def length_Counter)

lemma ranking_full: "ranking songs = top_songs songs (int (length songs))"
proof -
  have "card (set songs) \<le> length songs" by (rule card_length)
  then show ?thesis
    by (simp add: top_songs_ranking slice_to_def length_ranking)
qed

lemma set_ranking: "set (ranking songs) = set songs"
proof -
  have "set (ranking songs) = fst ` set (Counter songs)"
    by (simp add: ranking_def)
  also have "\<dots> = set (map fst (Counter songs))" by simp
  finally show ?thesis by (simp add: map_fst_Counter set_first_occurrences)
qed

lemma distinct_ranking: "distinct (ranking songs)"
proof -
  have "distinct (map fst (Counter songs))"
    by (simp add: map_fst_Counter distinct_first_occurrences)
  then have "distinct (map fst (sort_key sort_key_fn (Counter songs)))"
    by (simp add: distinct_map  inj_on_def)
  then show ?thesis by (simp add: ranking_def)
qed

lemma sorted_ranking: "sorted (map (rank_key songs) (ranking songs))"
proof -
  have "map (rank_key songs) (ranking songs) =
        map sort_key_fn (sort_key sort_key_fn (Counter songs))"
    by (auto simp: ranking_def rank_key_def sort_key_fn_def Counter_count)
  then show ?thesis by (simp add: sorted_sort_key)
qed

lemma takeWhile_neq_snoc:
  "x \<notin> set xs \<Longrightarrow> takeWhile (\<lambda>z. z \<noteq> x) (xs @ [x]) = xs"
  by (induction xs) auto

lemma precedes_first_occurrences:
  "precedes a b xs \<Longrightarrow> precedes a b (first_occurrences xs)"
proof (induction xs rule: rev_induct)
  case Nil
  then show ?case by (simp add: precedes_def)
next
  case (snoc x xs)
  show ?case
  proof (cases "b \<in> set xs")
    case True
    with snoc.prems have "precedes a b xs" by (simp add: precedes_def)
    then have "precedes a b (first_occurrences xs)" by (rule snoc.IH)
    then have b: "b \<in> set (first_occurrences xs)"
      and a: "a \<in> set (takeWhile (\<lambda>z. z \<noteq> b) (first_occurrences xs))"
      by (simp_all add: precedes_def)
    have "takeWhile (\<lambda>z. z \<noteq> b) (first_occurrences xs @ [x]) =
          takeWhile (\<lambda>z. z \<noteq> b) (first_occurrences xs)"
      using b by (intro takeWhile_append1) auto
    with a b show ?thesis
      by (simp add: precedes_def first_occurrences_snoc)
  next
    case False
    with snoc.prems have bx: "b = x" by (auto simp: precedes_def)
    with snoc.prems False have ax: "a \<in> set xs"
      by (simp add: precedes_def takeWhile_neq_snoc)
    have "takeWhile (\<lambda>z. z \<noteq> b) (first_occurrences xs @ [b]) = first_occurrences xs"
      using False by (intro takeWhile_neq_snoc) (simp add: set_first_occurrences)
    then show ?thesis using False bx ax
      by (simp add: precedes_def first_occurrences_snoc set_first_occurrences)
  qed
qed

lemma precedes_map:
  assumes "inj_on f (set xs)" and "precedes a b xs"
  shows "precedes (f a) (f b) (map f xs)"
proof -
  from assms(2) have b: "b \<in> set xs" and a: "a \<in> set (takeWhile (\<lambda>z. z \<noteq> b) xs)"
    by (simp_all add: precedes_def)
  have "takeWhile ((\<lambda>z. z \<noteq> f b) \<circ> f) xs = takeWhile (\<lambda>z. z \<noteq> b) xs"
  proof (rule takeWhile_cong)
    show "xs = xs" by simp
  next
    fix x assume "x \<in> set xs"
    with assms(1) b show "((\<lambda>z. z \<noteq> f b) \<circ> f) x = (x \<noteq> b)"
      by (auto simp: inj_on_def)
  qed
  then have "takeWhile (\<lambda>z. z \<noteq> f b) (map f xs) = map f (takeWhile (\<lambda>z. z \<noteq> b) xs)"
    by (simp add: takeWhile_map)
  with a b show ?thesis by (simp add: precedes_def)
qed

lemma precedes_filter:
  assumes "P a" and "P b"
  shows "precedes a b (filter P xs) = precedes a b xs"
proof (induction xs)
  case Nil
  show ?case by (simp add: precedes_def)
next
  case (Cons x xs)
  then show ?case using assms by (auto simp: precedes_def)
qed

lemma precedes_sort_key:
  assumes "precedes a b xs" and "f a = f b"
  shows "precedes a b (sort_key f xs)"
proof -
  let ?P = "\<lambda>y. f y = f b"
  have "precedes a b (filter ?P xs)"
    using assms by (simp add: precedes_filter)
  then have "precedes a b (filter ?P (sort_key f xs))"
    by (simp only: sort_key_stable)
  then show ?thesis
    using assms(2) precedes_filter [of ?P a b "sort_key f xs"] by simp
qed

lemma precedes_take:
  "precedes a b xs \<Longrightarrow> b \<in> set (take k xs) \<Longrightarrow> precedes a b (take k xs)"
proof -
  assume p: "precedes a b xs" and b: "b \<in> set (take k xs)"
  have "takeWhile (\<lambda>z. z \<noteq> b) (take k xs @ drop k xs) = takeWhile (\<lambda>z. z \<noteq> b) (take k xs)"
    using b by (intro takeWhile_append1) auto
  then show ?thesis using p b by (simp add: precedes_def)
qed

lemma precedes_ranking:
  assumes "precedes a b songs" and "a \<noteq> b"
    and "count_list songs a = count_list songs b" and "py_lower a = py_lower b"
  shows "precedes a b (ranking songs)"
proof -
  let ?g = "\<lambda>k. (k, count_list songs k)"
  have "precedes (?g a) (?g b) (map ?g (first_occurrences songs))"
    using precedes_first_occurrences [OF assms(1)]
    by (intro precedes_map) (auto simp: inj_on_def)
  then have "precedes (?g a) (?g b) (Counter songs)"
    by (simp add: Counter_tally)
  then have s: "precedes (?g a) (?g b) (sort_key sort_key_fn (Counter songs))"
    using assms(3,4) by (intro precedes_sort_key) (auto simp: sort_key_fn_def)
  have "inj_on fst (set (sort_key sort_key_fn (Counter songs)))"
    by (auto simp: inj_on_def Counter_tally)
  from precedes_map [OF this s] show ?thesis by (simp add: ranking_def)
qed

lemma slice_to_take: "\<exists>k. slice_to n xs = take k xs"
  by (auto simp: slice_to_def)


text \<open>
  Claim C3 says that \<open>top_songs(L, N)\<close> is empty for every \<open>N \<le> 0\<close>. For a negative
  \<open>N\<close> the slice \<open>[:N]\<close> drops the last \<open>-N\<close> entries instead: with two titles and
  \<open>N = -1\<close> one title is returned.
\<close>

theorem top_songs_nonpositive_counterexample:
  "(- 1 :: int) \<le> 0 \<and> top_songs [''A'', ''B''] (- 1) = [''A''] \<and> top_songs [''A'', ''B''] (- 1) \<noteq> []"
  by code_simp

text \<open>
  Claim C3, as the code has it: \<open>top_songs(L, 0)\<close> is empty, \<open>top_songs([], N)\<close> is empty
  for every \<open>N\<close>, and for \<open>N < 0\<close> the result is the full ranking (the result for
  \<open>N = len(L)\<close>) without its last \<open>-N\<close> entries, which is empty exactly when \<open>-N\<close> is at
  least the number of distinct titles.
\<close>

theorem top_songs_empty_cases:
  "top_songs songs 0 = [] \<and> top_songs [] n = [] \<and>
   (n < 0 \<longrightarrow>
      top_songs songs n =
        take (card (set songs) - nat (- n)) (top_songs songs (int (length songs))) \<and>
      (top_songs songs n = [] \<longleftrightarrow> card (set songs) \<le> nat (- n)))"
proof (intro conjI impI)
  show "top_songs songs 0 = []"
    by (simp add: top_songs_ranking slice_to_def)
  show "top_songs [] n = []"
    by (simp add: top_songs_def Counter_def slice_to_def)
next
  assume n: "n < 0"
  then show "top_songs songs n =
        take (card (set songs) - nat (- n)) (top_songs songs (int (length songs)))"
    by (simp add: top_songs_ranking [of songs n] slice_to_def length_ranking flip: ranking_full)
  from n show "top_songs songs n = [] \<longleftrightarrow> card (set songs) \<le> nat (- n)"
    using length_ranking [of songs]
    by (auto simp add: top_songs_ranking [of songs n] slice_to_def take_eq_Nil)
qed

theorem top_songs_empty_cases_witness:
  "(- 1 :: int) < 0 \<and>
   top_songs [''A'', ''B''] (- 1) =
     take (card (set [''A'', ''B'' :: string]) - nat (- (- 1))) (top_songs [''A'', ''B''] (int (length [''A'', ''B'' :: string])))
   \<and> top_songs [''A'', ''B''] 0 = []"
  using top_songs_empty_cases [of "[''A'', ''B'']" "- 1"] by simp

text \<open>
  Claim C4: for \<open>N \<ge> 0\<close>, \<open>top_songs(L, N)\<close> is the first \<open>N\<close> entries of a sequence
  that does not depend on \<open>N\<close>, consists of the distinct exact titles of \<open>L\<close>, and is
  sorted by the key (negated occurrence count, lower-cased title), that is by descending
  count and then ascending case-insensitive title; its length is the minimum of \<open>N\<close> and
  the number of distinct titles; and the example list of the specification yields
  Song A, Song B, Song C with the default \<open>N = 20\<close>.
\<close>

theorem top_songs_ranked_prefix:
  assumes "0 \<le> n"
  shows "top_songs songs n = take (nat n) (ranking songs)
     \<and> distinct (ranking songs) \<and> set (ranking songs) = set songs
     \<and> sorted (map (rank_key songs) (ranking songs))
     \<and> length (top_songs songs n) = min (nat n) (card (set songs))
     \<and> top_songs [''Song A'', ''Song B'', ''Song A'', ''Song C'', ''Song A'', ''Song B''] 20
         = [''Song A'', ''Song B'', ''Song C'']"
proof -
  have t: "top_songs songs n = take (nat n) (ranking songs)"
    using assms by (simp add: top_songs_ranking slice_to_def)
  have l: "length (top_songs songs n) = min (nat n) (card (set songs))"
    by (simp add: t length_ranking)
  have e: "top_songs [''Song A'', ''Song B'', ''Song A'', ''Song C'', ''Song A'', ''Song B''] 20
         = [''Song A'', ''Song B'', ''Song C'']"
    by code_simp
  from t l e show ?thesis
    using distinct_ranking set_ranking sorted_ranking by blast
qed

theorem top_songs_ranked_prefix_witness:
  "(0::int) \<le> 2 \<and>
   top_songs [''b'', ''a'', ''b'', ''c''] 2 = take (nat 2) (ranking [''b'', ''a'', ''b'', ''c'']) \<and>
   length (top_songs [''b'', ''a'', ''b'', ''c''] 2) = min (nat 2) (card (set [''b'', ''a'', ''b'', ''c'' :: string]))"
proof -
  have h: "(0::int) \<le> 2" by simp
  from top_songs_ranked_prefix [OF h, of "[''b'', ''a'', ''b'', ''c'']"] h
  show ?thesis by blast
qed

text \<open>
  Claim C9: for \<open>0 \<le> N \<le> M\<close>, \<open>top_songs(L, N)\<close> is a prefix of \<open>top_songs(L, M)\<close>.
\<close>

theorem top_songs_prefix_monotone:
  assumes "0 \<le> n" and "n \<le> m"
  shows "prefix (top_songs songs n) (top_songs songs m)"
proof -
  have "take (nat n) (ranking songs) = take (nat n) (take (nat m) (ranking songs))"
    using assms by (simp add: min_def)
  then have "prefix (take (nat n) (ranking songs)) (take (nat m) (ranking songs))"
    by (metis take_is_prefix)
  then show ?thesis
    using assms by (simp add: top_songs_ranking slice_to_def)
qed

theorem top_songs_prefix_monotone_witness:
  "(0::int) \<le> 1 \<and> (1::int) \<le> 3 \<and>
   prefix (top_songs [''b'', ''a'', ''b'', ''c''] 1) (top_songs [''b'', ''a'', ''b'', ''c''] 3)"
proof -
  have h1: "(0::int) \<le> 1" and h2: "(1::int) \<le> 3" by simp_all
  from top_songs_prefix_monotone [OF h1 h2, of "[''b'', ''a'', ''b'', ''c'']"] h1 h2
  show ?thesis by blast
qed

text \<open>
  Claim C10: two distinct titles with the same occurrence count and the same lower-cased
  form appear in the output in the order of their first occurrence in the input (when
  both are in the output); this is not the order of the exact strings: for the input
  song b, Song B the output is song b, Song B although Song B is the smaller string.
\<close>

theorem top_songs_case_tie_order:
  "(a \<noteq> b \<and> count_list songs a = count_list songs b \<and> py_lower a = py_lower b
      \<and> a \<in> set (top_songs songs n) \<and> b \<in> set (top_songs songs n) \<and> precedes a b songs
     \<longrightarrow> precedes a b (top_songs songs n))
   \<and> top_songs [''song b'', ''Song B''] 20 = [''song b'', ''Song B'']
   \<and> (''Song B'' :: string) < ''song b''"
proof (intro conjI impI)
  assume h: "a \<noteq> b \<and> count_list songs a = count_list songs b \<and> py_lower a = py_lower b
      \<and> a \<in> set (top_songs songs n) \<and> b \<in> set (top_songs songs n) \<and> precedes a b songs"
  then have r: "precedes a b (ranking songs)"
    by (intro precedes_ranking) simp_all
  obtain k where k: "top_songs songs n = take k (ranking songs)"
    using slice_to_take [of n "ranking songs"] by (auto simp: top_songs_ranking)
  from h have "b \<in> set (take k (ranking songs))" by (simp add: k)
  from precedes_take [OF r this] show "precedes a b (top_songs songs n)"
    by (simp add: k)
next
  show "top_songs [''song b'', ''Song B''] 20 = [''song b'', ''Song B'']" by code_simp
  show "(''Song B'' :: string) < ''song b''" by code_simp
qed

theorem top_songs_case_tie_order_witness:
  "''song b'' \<noteq> ''Song B'' \<and> py_lower ''song b'' = py_lower ''Song B''
   \<and> precedes ''song b'' ''Song B'' [''song b'', ''Song B'']
   \<and> precedes ''song b'' ''Song B'' (top_songs [''song b'', ''Song B''] 20)"
proof -
  have e: "top_songs [''song b'', ''Song B''] 20 = [''song b'', ''Song B'']" by code_simp
  have l: "py_lower ''song b'' = py_lower ''Song B''" by code_simp
  have p: "precedes ''song b'' ''Song B'' [''song b'', ''Song B'']"
    by (simp add: precedes_def)
  have c: "count_list [''song b'', ''Song B''] ''song b'' = count_list [''song b'', ''Song B''] ''Song B''"
    by simp
  from top_songs_case_tie_order [of "''song b''" "''Song B''" "[''song b'', ''Song B'']" 20] e l p c
  show ?thesis by simp
qed

section \<open>Properties of make_request\<close>


lemma time_sleep_overflow:
  "SLEEP_MAX < secs \<Longrightarrow> time_sleep secs w = Inl OverflowError"
  by (simp add: time_sleep_def SLEEP_MAX_def INT64_MAX_def)

lemma time_sleep_undecided:
  "SLEEP_SAFE < secs \<Longrightarrow> secs \<le> SLEEP_MAX \<Longrightarrow> time_sleep secs w = Inl Unmodelled"
  by (simp add: time_sleep_def SLEEP_SAFE_def SLEEP_MAX_def INT64_MAX_def MONOTONIC_MAX_def)

lemma time_sleep_sleeps:
  "time_sleep secs w = Inr w' \<Longrightarrow> w' = w\<lparr>sleeps := sleeps w @ [secs]\<rparr>"
  by (auto simp: time_sleep_def split: if_splits)

lemma attempt_once_Return:
  "attempt_once net rq ra a w = (Return r, w') \<Longrightarrow>
     raise_for_status r = None \<and> status_code r \<noteq> 429"
  by (auto simp: attempt_once_def requests_get_def except_RequestException_def
           split: outcome.splits if_splits sum.splits option.splits)

lemma make_request_loop_Inr:
  "make_request_loop net rq ra a w = (Inr r, w') \<Longrightarrow>
     raise_for_status r = None \<and> status_code r \<noteq> 429"
proof (induction net rq ra a w rule: make_request_loop.induct)
  case (1 net rq ra a w)
  show ?case
  proof (cases "a < MAX_RETRIES")
    case False
    with "1.prems" show ?thesis by (simp add: make_request_loop.simps)
  next
    case True
    obtain att w1 where att: "attempt_once net rq ra a w = (att, w1)"
      by (cases "attempt_once net rq ra a w")
    show ?thesis
    proof (cases att)
      case (Return r')
      with "1.prems" True att have "attempt_once net rq ra a w = (Return r, w')"
        by (simp add: make_request_loop.simps [of net rq ra a w])
      then show ?thesis by (rule attempt_once_Return)
    next
      case (Raise e)
      with "1.prems" True att show ?thesis
        by (simp add: make_request_loop.simps [of net rq ra a w])
    next
      case (Continue ra')
      with "1.prems" True att
      have "make_request_loop net rq ra' (a + 1) w1 = (Inr r, w')"
        by (simp add: make_request_loop.simps [of net rq ra a w])
      with "1.IH" [OF True att [symmetric] Continue] show ?thesis by simp
    qed
  qed
qed

lemma make_request_Inr:
  "make_request net rq w = (Inr r, w') \<Longrightarrow> \<not> (400 \<le> status_code r \<and> status_code r < 600)"
  using make_request_loop_Inr [of net rq RATE_LIMIT_DELAY 0 w r w']
  by (auto simp: make_request_def raise_for_status_def split: if_splits)

lemma attempt_once_sent:
  "attempt_once net rq ra a w = (att, w') \<Longrightarrow> sent w' = sent w @ [rq]"
  by (auto simp: attempt_once_def requests_get_def time_sleep_def
           split: outcome.splits if_splits sum.splits option.splits)

lemma make_request_loop_sent:
  "make_request_loop net rq ra a w = (res, w') \<Longrightarrow>
     \<exists>k. k \<le> MAX_RETRIES - a \<and> sent w' = sent w @ replicate k rq"
proof (induction net rq ra a w rule: make_request_loop.induct)
  case (1 net rq ra a w)
  show ?case
  proof (cases "a < MAX_RETRIES")
    case False
    with "1.prems" show ?thesis by (simp add: make_request_loop.simps)
  next
    case True
    obtain att w1 where att: "attempt_once net rq ra a w = (att, w1)"
      by (cases "attempt_once net rq ra a w")
    have s1: "sent w1 = sent w @ [rq]" using att by (rule attempt_once_sent)
    have one: "sent w1 = sent w @ replicate 1 rq \<and> 1 \<le> MAX_RETRIES - a"
      using s1 True by simp
    show ?thesis
    proof (cases att)
      case (Return r')
      with "1.prems" True att have "w' = w1"
        by (simp add: make_request_loop.simps [of net rq ra a w])
      with one show ?thesis by blast
    next
      case (Raise e)
      with "1.prems" True att have "w' = w1"
        by (simp add: make_request_loop.simps [of net rq ra a w])
      with one show ?thesis by blast
    next
      case (Continue ra')
      with "1.prems" True att
      have "make_request_loop net rq ra' (a + 1) w1 = (res, w')"
        by (simp add: make_request_loop.simps [of net rq ra a w])
      with "1.IH" [OF True att [symmetric] Continue]
      obtain k where k: "k \<le> MAX_RETRIES - (a + 1)" "sent w' = sent w1 @ replicate k rq"
        by blast
      then have "Suc k \<le> MAX_RETRIES - a \<and> sent w' = sent w @ replicate (Suc k) rq"
        using True s1 by (simp add: replicate_app_Cons_same)
      then show ?thesis by blast
    qed
  qed
qed







text \<open>
  Claim C1 says that a response with an error status other than 429 makes \<open>make_request\<close>
  fail at the first attempt with the HTTP error itself. The handler re-raises only when
  \<open>e.response\<close> is truthy, and a \<open>requests.Response\<close> with a status from 400 to 599 is
  falsy, so the re-raise of line 61 is never taken for such a response: against a server
  that answers 403 every time, three requests are sent and the caller gets the
  \<open>RuntimeError\<close> of line 65 around the HTTP error.
\<close>

theorem make_request_403_retried:
  "make_request (net_always (status_response 403)) test_request w0 =
     (Inl (RuntimeError_retries (HTTPError (status_response 403))),
      \<lparr>sent = [test_request, test_request, test_request], sleeps = []\<rparr>)"
  by code_simp


text \<open>
  Claim C2 says that a 404 on a page request ends the pagination and returns the songs
  collected so far. The test of line 126 is never reached with a 404: \<open>make_request\<close>
  turns the status into an exception (\<open>make_request_Inr\<close>: a returned response never has
  a status from 400 to 599). With a first page of 2023 setlists and a 404 on the second
  page, the second page is requested three times and the caller gets a \<open>RuntimeError\<close>;
  the songs of the first page are lost.
\<close>

theorem fetch_404_raises:
  "fetch_setlists_for_year net_second_page_404 ''test-mbid'' 2023 50 w0 =
     (Inl (RuntimeError_retries (HTTPError (status_response 404))),
      \<lparr>sent = [setlists_request ''test-mbid'' 1, setlists_request ''test-mbid'' 2,
               setlists_request ''test-mbid'' 2, setlists_request ''test-mbid'' 2],
       sleeps = [1]\<rparr>)"
  by code_simp



section \<open>Properties of extract_songs_from_setlist\<close>

lemma song_title_eq:
  "song_title song = (if is_object song then Inr (included_title song) else Inl AttributeError)"
  by (cases song)
     (auto simp: song_title_def py_get_def is_object_def included_title_def field_def
           split: option.splits)

lemma songs_loop_eq:
  "songs_loop items songs =
     (if list_all is_object items then Inr (songs @ List.map_filter included_title items)
      else Inl AttributeError)"
proof (induction items arbitrary: songs)
  case Nil
  show ?case by (simp add: List.map_filter_simps)
next
  case (Cons song rest)
  show ?case
    by (cases "included_title song")
       (simp_all add: song_title_eq Cons.IH List.map_filter_simps)
qed

lemma py_get_object:
  "is_object v \<Longrightarrow> py_get v k dflt = Inr (case field v k of None \<Rightarrow> dflt | Some x \<Rightarrow> x)"
  by (cases v) (simp_all add: is_object_def py_get_def field_def)

lemma py_get_not_object:
  "\<not> is_object v \<Longrightarrow> py_get v k dflt = Inl AttributeError"
  by (cases v) (simp_all add: is_object_def py_get_def)

lemma py_get_empty: "py_get (JObj []) k dflt = Inr dflt"
  by (simp add: py_get_def)

lemma py_iter_empty: "py_iter (JArr []) = Inr []"
  by (simp add: py_iter_def)

lemma sets_loop_step_wf:
  assumes "wf_set set_data"
  shows "sets_loop (set_data # rest) songs = sets_loop rest (songs @ set_titles set_data)"
proof (cases "truthy set_data")
  case False
  then show ?thesis by (simp add: set_titles_def)
next
  case True
  with assms have obj: "is_object set_data"
    and items: "case set_songs_of set_data of None \<Rightarrow> False | Some items \<Rightarrow> list_all is_object items"
    by (simp_all add: wf_set_def)
  from items obtain its where its: "set_songs_of set_data = Some its" "list_all is_object its"
    by (auto split: option.splits)
  have "\<exists>v. py_get set_data ''song'' (JArr []) = Inr v \<and> py_iter v = Inr its"
    using its(1) obj
    by (auto simp: py_get_object set_songs_of_def py_iter_empty split: option.splits sum.splits)
  then show ?thesis
    using True its by (auto simp: set_titles_def songs_loop_eq)
qed

lemma sets_loop_step_not_wf:
  assumes "\<not> wf_set set_data"
  shows "\<exists>e. sets_loop (set_data # rest) songs = Inl e"
proof -
  from assms have t: "truthy set_data" by (auto simp: wf_set_def)
  show ?thesis
  proof (cases "is_object set_data")
    case False
    then show ?thesis using t by (simp add: py_get_not_object)
  next
    case True
    show ?thesis
    proof (cases "set_songs_of set_data")
      case None
      then have "\<exists>v e. py_get set_data ''song'' (JArr []) = Inr v \<and> py_iter v = Inl e"
        using True
        by (auto simp: py_get_object set_songs_of_def split: option.splits sum.splits)
      then show ?thesis using t by auto
    next
      case (Some its)
      with assms True t have n: "\<not> list_all is_object its" by (simp add: wf_set_def)
      have "\<exists>v. py_get set_data ''song'' (JArr []) = Inr v \<and> py_iter v = Inr its"
        using Some True
        by (auto simp: py_get_object set_songs_of_def py_iter_empty split: option.splits sum.splits)
      then show ?thesis using t n by (auto simp: songs_loop_eq)
    qed
  qed
qed

lemma sets_loop_wf:
  "list_all wf_set sets \<Longrightarrow> sets_loop sets songs = Inr (songs @ concat (map set_titles sets))"
proof (induction sets arbitrary: songs)
  case Nil
  show ?case by simp
next
  case (Cons set_data rest)
  then have w: "wf_set set_data" and r: "list_all wf_set rest" by simp_all
  show ?case
    by (simp only: sets_loop_step_wf [OF w] Cons.IH [OF r]) simp
qed

lemma sets_loop_not_wf:
  "\<not> list_all wf_set sets \<Longrightarrow> \<exists>e. sets_loop sets songs = Inl e"
proof (induction sets arbitrary: songs)
  case Nil
  then show ?case by simp
next
  case (Cons set_data rest)
  show ?case
  proof (cases "wf_set set_data")
    case False
    then show ?thesis by (rule sets_loop_step_not_wf)
  next
    case True
    with Cons.prems have "\<not> list_all wf_set rest" by simp
    then have "\<exists>e. sets_loop rest (songs @ set_titles set_data) = Inl e" by (rule Cons.IH)
    then show ?thesis by (simp only: sets_loop_step_wf [OF True])
  qed
qed

lemma extract_groups:
  "extract_songs_from_setlist setlist =
     (case set_groups setlist of None \<Rightarrow> Inl AttributeError | Some groups \<Rightarrow> sets_loop groups [])"
proof (cases "is_object setlist")
  case False
  then show ?thesis
    by (simp add: extract_songs_from_setlist_def py_get_not_object set_groups_def)
next
  case True
  show ?thesis
  proof (cases "field setlist ''sets''")
    case None
    then show ?thesis using True
      by (simp add: extract_songs_from_setlist_def py_get_object set_groups_def
            py_get_empty normalize_sets_def)
  next
    case (Some sets_data)
    show ?thesis
    proof (cases "is_object sets_data")
      case False
      then show ?thesis using True Some
        by (simp add: extract_songs_from_setlist_def py_get_object py_get_not_object set_groups_def)
    next
      case obj: True
      then show ?thesis using True Some
        by (auto simp: extract_songs_from_setlist_def py_get_object set_groups_def
              normalize_sets_def split: option.splits)
    qed
  qed
qed

lemma extract_returns_iff:
  "(\<exists>titles. extract_songs_from_setlist setlist = Inr titles) \<longleftrightarrow> wf_setlist setlist"
proof (cases "set_groups setlist")
  case None
  then show ?thesis by (simp add: extract_groups wf_setlist_def)
next
  case (Some groups)
  show ?thesis
  proof (cases "list_all wf_set groups")
    case True
    then show ?thesis using Some by (simp add: extract_groups wf_setlist_def sets_loop_wf)
  next
    case False
    with sets_loop_not_wf [OF False, of "[]"] Some show ?thesis
      by (auto simp: extract_groups wf_setlist_def)
  qed
qed

lemma included_title_truthy: "included_title song = Some name \<Longrightarrow> truthy name"
  by (auto simp: included_title_def split: option.splits if_splits)

lemma set_titles_truthy:
  assumes "t \<in> set (set_titles set_data)"
  shows "truthy t"
proof (cases "set_songs_of set_data")
  case None
  then have "set_titles set_data = []" by (simp add: set_titles_def)
  with assms show ?thesis by simp
next
  case (Some items)
  then have "set_titles set_data = [] \<or>
             set_titles set_data = List.map_filter included_title items"
    by (simp add: set_titles_def)
  with assms have "t \<in> set (List.map_filter included_title items)"
    by auto
  then have "\<exists>song. included_title song = Some t"
    by (auto simp: List.map_filter_def)
  then show ?thesis using included_title_truthy by blast
qed

text \<open>
  Claim C8 says that the extraction returns for every input, a null \<open>sets\<close> field
  included. The default of \<open>setlist.get("sets", {})\<close> only covers an absent key: with
  \<open>"sets": null\<close> the next line calls \<open>get\<close> on \<open>None\<close> and raises.
\<close>

theorem extract_null_sets_counterexample:
  "extract_songs_from_setlist (JObj [(''sets'', JNull)]) = Inl AttributeError"
  by code_simp

text \<open>
  Claim C8, as the code has it. On a setlist object whose \<open>sets\<close> field is absent or an
  object, whose set groups are each falsy or an object, and whose \<open>song\<close> fields are each
  absent or a sequence of objects (\<open>wf_setlist\<close>; by \<open>extract_returns_iff\<close> these are
  the inputs on which the function returns), the extraction returns, in order, the names
  of the song entries with a truthy name and no truthy \<open>tape\<close> field. A single set object
  and a one-element sequence give the same groups, a null \<open>set\<close> field and a null group
  give nothing, an absent \<open>sets\<close> key and an empty \<open>sets\<close> object give the empty
  sequence, the sample setlist gives its two songs, and entries with a tape flag or
  without a name are left out.
\<close>

theorem extract_songs_well_formed:
  "(wf_setlist setlist \<longrightarrow>
      extract_songs_from_setlist setlist = Inr (setlist_titles setlist) \<and>
      (\<forall>t \<in> set (setlist_titles setlist). truthy t)) \<and>
   (\<forall>group. is_object group \<and> truthy group \<longrightarrow>
      set_groups (JObj [(''sets'', JObj [(''set'', group)])]) = Some [group] \<and>
      set_groups (JObj [(''sets'', JObj [(''set'', JArr [group])])]) = Some [group]) \<and>
   set_groups (JObj [(''sets'', JObj [(''set'', JNull)])]) = Some [] \<and>
   wf_set JNull \<and> set_titles JNull = [] \<and>
   extract_songs_from_setlist (JObj []) = Inr [] \<and>
   extract_songs_from_setlist (JObj [(''sets'', JObj [])]) = Inr [] \<and>
   extract_songs_from_setlist (sample_setlist ''15-10-2023'') = Inr [JStr ''Song 1'', JStr ''Song 2''] \<and>
   included_title (JObj [(''name'', JStr ''Intro''), (''tape'', JBool True)]) = None \<and>
   included_title (JObj [(''info'', JStr ''unknown'')]) = None"
proof -
  have a: "wf_setlist setlist \<longrightarrow>
      extract_songs_from_setlist setlist = Inr (setlist_titles setlist) \<and>
      (\<forall>t \<in> set (setlist_titles setlist). truthy t)"
    by (auto simp: wf_setlist_def setlist_titles_def extract_groups sets_loop_wf
          set_titles_truthy split: option.splits)
  have b: "\<forall>group. is_object group \<and> truthy group \<longrightarrow>
      set_groups (JObj [(''sets'', JObj [(''set'', group)])]) = Some [group] \<and>
      set_groups (JObj [(''sets'', JObj [(''set'', JArr [group])])]) = Some [group]"
    by (auto simp: set_groups_def is_object_def field_def normalize_sets_def split: json.splits)
  have c: "set_groups (JObj [(''sets'', JObj [(''set'', JNull)])]) = Some []"
    by (simp add: set_groups_def is_object_def field_def normalize_sets_def)
  have d: "wf_set JNull \<and> set_titles JNull = []"
    by (simp add: wf_set_def set_titles_def)
  have e: "extract_songs_from_setlist (JObj []) = Inr []" by code_simp
  have f: "extract_songs_from_setlist (JObj [(''sets'', JObj [])]) = Inr []" by code_simp
  have g: "extract_songs_from_setlist (sample_setlist ''15-10-2023'') = Inr [JStr ''Song 1'', JStr ''Song 2'']"
    by code_simp
  have h: "included_title (JObj [(''name'', JStr ''Intro''), (''tape'', JBool True)]) = None"
    by code_simp
  have i: "included_title (JObj [(''info'', JStr ''unknown'')]) = None" by code_simp
  from a b c d e f g h i show ?thesis by blast
qed

theorem extract_songs_well_formed_witness:
  "wf_setlist (sample_setlist ''15-10-2023'') \<and>
   extract_songs_from_setlist (sample_setlist ''15-10-2023'') =
     Inr (setlist_titles (sample_setlist ''15-10-2023'')) \<and>
   setlist_titles (sample_setlist ''15-10-2023'') = [JStr ''Song 1'', JStr ''Song 2'']"
proof -
  have w: "wf_setlist (sample_setlist ''15-10-2023'')" by code_simp
  have t: "setlist_titles (sample_setlist ''15-10-2023'') = [JStr ''Song 1'', JStr ''Song 2'']"
    by code_simp
  from extract_songs_well_formed [of "sample_setlist ''15-10-2023''"] w t
  show ?thesis by blast
qed

section \<open>Properties of fetch_setlists_for_year\<close>

text \<open>\<open>int(str(i))\<close> is \<open>i\<close>: a year suffix equal to the target year string is not
  below the target year.\<close>

lemma digit_char:
  "n < 10 \<Longrightarrow> is_ascii_digit (char_of (48 + n)) \<and> (of_char (char_of (48 + n)) :: nat) - 48 = n"
  by (simp add: is_ascii_digit_def)

lemma digit_char_mod:
  "is_ascii_digit (char_of (48 + n mod 10)) \<and> (of_char (char_of (48 + n mod 10)) :: nat) - 48 = n mod 10"
  by (rule digit_char) simp

lemma digits_value_nat_digits:
  "digits_value (nat_digits n @ cs) acc prev =
     digits_value cs (acc * 10 ^ length (nat_digits n) + n) True"
proof (induction n arbitrary: cs acc prev rule: nat_digits.induct)
  case (1 n)
  show ?case
  proof (cases "n < 10")
    case True
    then show ?thesis
      using digit_char [OF True] by (subst (1 2) nat_digits.simps) (simp add: mult.commute)
  next
    case False
    let ?c = "char_of (48 + n mod 10) :: char"
    have nd: "nat_digits n = nat_digits (n div 10) @ [?c]"
      using False by (subst nat_digits.simps) simp
    have "digits_value (nat_digits n @ cs) acc prev =
          digits_value (nat_digits (n div 10) @ (?c # cs)) acc prev"
      by (simp add: nd)
    also have "\<dots> = digits_value (?c # cs) (acc * 10 ^ length (nat_digits (n div 10)) + n div 10) True"
      using False by (intro "1.IH") simp
    also have "\<dots> = digits_value cs
        (10 * (acc * 10 ^ length (nat_digits (n div 10)) + n div 10) + n mod 10) True"
      using digit_char_mod [of n] by simp
    also have "10 * (acc * 10 ^ length (nat_digits (n div 10)) + n div 10) + n mod 10 =
               acc * 10 ^ length (nat_digits n) + n"
      by (simp add: nd algebra_simps)
    finally show ?thesis .
  qed
qed

lemma digits_value_nat_digits0: "digits_value (nat_digits n) 0 False = Some n"
  using digits_value_nat_digits [of n "[]" 0 False] by simp

lemma nat_digits_all: "list_all is_ascii_digit (nat_digits n)"
proof (induction n rule: nat_digits.induct)
  case (1 n)
  show ?case
  proof (cases "n < 10")
    case True
    then show ?thesis using digit_char [OF True] by (subst nat_digits.simps) simp
  next
    case False
    then show ?thesis
      using "1.IH" digit_char_mod [of n] by (subst nat_digits.simps) simp
  qed
qed

lemma nat_digits_nonempty: "nat_digits n \<noteq> []"
  by (subst nat_digits.simps) simp

lemma digit_not_space: "is_ascii_digit c \<Longrightarrow> \<not> int_space c"
  by (auto simp: is_ascii_digit_def int_space_def)

lemma digit_not_sign: "is_ascii_digit c \<Longrightarrow> c \<noteq> CHR ''-'' \<and> c \<noteq> CHR ''+''"
  by (auto simp: is_ascii_digit_def)

lemma strip_digits:
  assumes that: "p = [] \<or> p = [CHR ''-'']"
    and "list_all is_ascii_digit ds" and "ds \<noteq> []"
  shows "rev (dropWhile int_space (rev (dropWhile int_space (p @ ds)))) = p @ ds"
proof -
  obtain d ds' where ds: "ds = d # ds'" using assms(3) by (cases ds) auto
  obtain l ds'' where dl: "ds = ds'' @ [l]" using assms(3) by (cases ds rule: rev_cases) auto
  have d: "\<not> int_space d" using assms(2) ds by (simp add: digit_not_space)
  have l: "\<not> int_space l" using assms(2) dl by (simp add: digit_not_space)
  have m: "\<not> int_space CHR ''-''" by (simp add: int_space_def)
  have 1: "dropWhile int_space (p @ ds) = p @ ds"
    using that d m ds by auto
  have 2: "dropWhile int_space (rev (p @ ds)) = rev (p @ ds)"
    using l dl by simp
  show ?thesis by (simp only: 1 2 rev_rev_ident)
qed

lemma filter_digits: "list_all is_ascii_digit ds \<Longrightarrow> filter is_ascii_digit ds = ds"
  by (induction ds) simp_all

lemma py_int_py_str:
  assumes "length (py_str i) \<le> INT_MAX_STR_DIGITS"
  shows "py_int (py_str i) = Inr i"
proof (cases "i < 0")
  case False
  let ?ds = "nat_digits (nat i)"
  have s: "rev (dropWhile int_space (rev (dropWhile int_space ?ds))) = ?ds"
    using strip_digits [OF _ nat_digits_all nat_digits_nonempty, of "[]" "nat i"] by simp
  obtain d ds' where ds: "?ds = d # ds'"
    using nat_digits_nonempty [of "nat i"] by (cases ?ds) auto
  have "is_ascii_digit d" using nat_digits_all [of "nat i"] ds by simp
  then have ns: "d \<noteq> CHR ''-'' \<and> d \<noteq> CHR ''+''" by (rule digit_not_sign)
  have v: "digits_value ?ds 0 False = Some (nat i)"
    by (rule digits_value_nat_digits0)
  have l: "\<not> INT_MAX_STR_DIGITS < length (filter is_ascii_digit ?ds)"
    using assms False by (simp add: filter_digits [OF nat_digits_all] py_str_def)
  have "py_int ?ds = Inr (int (nat i))"
    unfolding py_int_def Let_def s using ns l v by (simp add: ds)
  then show ?thesis using False by (simp add: py_str_def)
next
  case True
  let ?ds = "nat_digits (nat (- i))"
  have s: "rev (dropWhile int_space (rev (dropWhile int_space (CHR ''-'' # ?ds)))) = CHR ''-'' # ?ds"
    using strip_digits [OF _ nat_digits_all nat_digits_nonempty, of "[CHR ''-'']" "nat (- i)"] by simp
  have v: "digits_value ?ds 0 False = Some (nat (- i))"
    by (rule digits_value_nat_digits0)
  have l: "\<not> INT_MAX_STR_DIGITS < length (filter is_ascii_digit ?ds)"
    using assms True by (simp add: filter_digits [OF nat_digits_all] py_str_def)
  have "py_int (CHR ''-'' # ?ds) = Inr (- int (nat (- i)))"
    unfolding py_int_def Let_def s using l v by simp
  then show ?thesis using True by (simp add: py_str_def)
qed

lemma process_setlist_older:
  assumes "older_entry year setlist"
  shows "process_setlist year setlist acc = Inr (fst acc, True)"
proof -
  from assms obtain s where f: "field setlist ''eventDate'' = Some (JStr s)"
    by (auto simp: older_entry_def split: option.splits json.splits)
  let ?y = "drop (length s - 4) s"
  from assms f have len: "10 \<le> length s" and dig: "py_isdigit ?y"
    and low: "case py_int ?y of Inl e \<Rightarrow> False | Inr y \<Rightarrow> y < year"
    by (simp_all add: older_entry_def)
  from low obtain y where y: "py_int ?y = Inr y" "y < year"
    by (auto split: sum.splits)
  have ne: "?y \<noteq> py_str year"
  proof
    assume "?y = py_str year"
    moreover have "length ?y \<le> INT_MAX_STR_DIGITS"
      by (simp add: INT_MAX_STR_DIGITS_def)
    ultimately have "py_int ?y = Inr year" by (simp add: py_int_py_str)
    with y show False by simp
  qed
  from f obtain kvs where obj: "setlist = JObj kvs" "map_of kvs ''eventDate'' = Some (JStr s)"
    by (cases setlist) (simp_all add: field_def)
  have g: "py_get setlist ''eventDate'' (JStr []) = Inr (JStr s)"
    using obj by (simp add: py_get_def)
  show ?thesis
    using len dig y ne by (simp add: process_setlist_def g py_len_def Let_def)
qed

lemma process_setlist_keeps_flag:
  assumes "process_setlist year setlist acc = Inr acc'" and "snd acc"
  shows "snd acc'"
  using assms
  by (auto simp: process_setlist_def Let_def
           split: sum.splits if_splits json.splits)

lemma setlists_loop_keeps_flag:
  "setlists_loop year items acc = Inr acc' \<Longrightarrow> snd acc \<Longrightarrow> snd acc'"
proof (induction items arbitrary: acc)
  case Nil
  then show ?case by simp
next
  case (Cons setlist rest)
  from Cons.prems(1) obtain acc1 where
    p: "process_setlist year setlist acc = Inr acc1" and l: "setlists_loop year rest acc1 = Inr acc'"
    by (auto split: sum.splits)
  from process_setlist_keeps_flag [OF p Cons.prems(2)] have "snd acc1" .
  with l show ?case by (rule Cons.IH)
qed

lemma setlists_loop_older:
  "setlists_loop year items acc = Inr acc' \<Longrightarrow> setlist \<in> set items \<Longrightarrow>
   older_entry year setlist \<Longrightarrow> snd acc'"
proof (induction items arbitrary: acc)
  case Nil
  then show ?case by simp
next
  case (Cons x rest)
  from Cons.prems(1) obtain acc1 where
    p: "process_setlist year x acc = Inr acc1" and l: "setlists_loop year rest acc1 = Inr acc'"
    by (auto split: sum.splits)
  show ?case
  proof (cases "x = setlist")
    case True
    with p Cons.prems(3) have "snd acc1" by (auto simp: process_setlist_older)
    with l show ?thesis by (rule setlists_loop_keeps_flag)
  next
    case False
    with Cons.prems(2) have "setlist \<in> set rest" by simp
    with l show ?thesis using Cons.prems(3) by (rule Cons.IH)
  qed
qed

lemma fetch_pages_page:
  assumes "page_num \<le> max_pages"
    and "make_request net (setlists_request mbid page_num) w = (Inr r, w')"
    and "json_body r = Some data"
    and "py_get data ''setlist'' (JArr []) = Inr (JArr items)" and "items \<noteq> []"
  shows "fetch_pages net mbid year max_pages page_num songs w =
     (case setlists_loop year items (songs, False) of
        Inl e \<Rightarrow> (Inl e, w')
      | Inr (songs', older_than_year) \<Rightarrow>
          if older_than_year then (Inr songs', w')
          else
            (case end_of_results page_num data of
               Inl e \<Rightarrow> (Inl e, w')
             | Inr True \<Rightarrow> (Inr songs', w')
             | Inr False \<Rightarrow> fetch_pages net mbid year max_pages (page_num + 1) songs' w'))"
proof -
  have "status_code r \<noteq> 404"
    using make_request_Inr [OF assms(2)] by auto
  then show ?thesis
    using assms
    by (subst fetch_pages.simps) (simp add: py_iter_def)
qed

lemma fetch_pages_cap:
  "max_pages < page_num \<Longrightarrow> fetch_pages net mbid year max_pages page_num songs w = (Inr songs, w)"
  by (subst fetch_pages.simps) simp

lemma make_request_sent:
  "make_request net rq w = (res, w') \<Longrightarrow>
     \<exists>k. k \<le> MAX_RETRIES \<and> sent w' = sent w @ replicate k rq"
  using make_request_loop_sent [of net rq RATE_LIMIT_DELAY 0 w res w']
  by (simp add: make_request_def)

lemma end_of_results_numbers:
  assumes "py_get data ''total'' (JInt 0) = Inr (JInt t)"
    and "py_get data ''itemsPerPage'' (JInt 20) = Inr (JInt i)"
  shows "end_of_results page_num data = Inr (t \<le> page_num * i)"
  using assms by (simp add: end_of_results_def py_number_def)

text \<open>
  Claim C6. At any pass of the page loop (any page number within the cap, any songs
  collected and any request log so far): if the page obtained for \<open>page_num\<close> contains a
  setlist entry whose year suffix parses to an integer below the target year
  (\<open>older_entry\<close>), then the function ends in the world in which \<open>make_request\<close> for that
  page ended, so the only requests sent since the pass began are requests for that
  page and none for a later page; and when the entries of the page are processed to the
  end, the older-data flag is set and the function returns the songs collected through
  this page, whatever the page cap and the total count are.
\<close>

theorem fetch_stops_at_older_setlist:
  assumes "page_num \<le> max_pages"
    and "make_request net (setlists_request mbid page_num) w = (Inr r, w')"
    and "json_body r = Some data"
    and "py_get data ''setlist'' (JArr []) = Inr (JArr items)"
    and "setlist \<in> set items" and "older_entry year setlist"
  shows "snd (fetch_pages net mbid year max_pages page_num songs w) = w' \<and>
     (\<exists>k. k \<le> MAX_RETRIES \<and> sent w' = sent w @ replicate k (setlists_request mbid page_num)) \<and>
     (\<forall>songs' older_than_year.
        setlists_loop year items (songs, False) = Inr (songs', older_than_year) \<longrightarrow>
          older_than_year \<and>
          fetch_pages net mbid year max_pages page_num songs w = (Inr songs', w'))"
proof -
  from assms(5) have ne: "items \<noteq> []" by auto
  note page = fetch_pages_page [OF assms(1-4) ne, of year songs]
  have flag: "older_than_year"
    if "setlists_loop year items (songs, False) = Inr (songs', older_than_year)"
    for songs' older_than_year
    using setlists_loop_older [OF that assms(5,6)] by simp
  have ret: "fetch_pages net mbid year max_pages page_num songs w = (Inr songs', w')"
    if "setlists_loop year items (songs, False) = Inr (songs', older_than_year)"
    for songs' older_than_year
    using flag [OF that] that by (simp add: page)
  have w: "snd (fetch_pages net mbid year max_pages page_num songs w) = w'"
  proof (cases "setlists_loop year items (songs, False)")
    case (Inl e)
    then show ?thesis by (simp add: page)
  next
    case (Inr p)
    obtain songs' older where "p = (songs', older)" by (cases p)
    with Inr ret [of songs' older] show ?thesis by simp
  qed
  from w make_request_sent [OF assms(2)] flag ret show ?thesis by blast
qed

theorem fetch_stops_at_older_setlist_witness:
  "(2::int) \<le> 50 \<and>
   make_request net_older_on_second_page (setlists_request ''test-mbid'' 2)
       \<lparr>sent = [setlists_request ''test-mbid'' 1], sleeps = [1]\<rparr> =
     (Inr (page_response 400 [sample_setlist ''14-10-2023'', sample_setlist ''31-12-2022'']),
      \<lparr>sent = [setlists_request ''test-mbid'' 1, setlists_request ''test-mbid'' 2],
       sleeps = [1, 1]\<rparr>) \<and>
   older_entry 2023 (sample_setlist ''31-12-2022'') \<and>
   snd (fetch_pages net_older_on_second_page ''test-mbid'' 2023 50 2
          [JStr ''Song 1'', JStr ''Song 2'']
          \<lparr>sent = [setlists_request ''test-mbid'' 1], sleeps = [1]\<rparr>) =
     \<lparr>sent = [setlists_request ''test-mbid'' 1, setlists_request ''test-mbid'' 2],
      sleeps = [1, 1]\<rparr> \<and>
   fetch_setlists_for_year net_older_on_second_page ''test-mbid'' 2023 50 w0 =
     (Inr [JStr ''Song 1'', JStr ''Song 2'', JStr ''Song 1'', JStr ''Song 2''],
      \<lparr>sent = [setlists_request ''test-mbid'' 1, setlists_request ''test-mbid'' 2],
       sleeps = [1, 1]\<rparr>)"
proof -
  let ?w1 = "\<lparr>sent = [setlists_request ''test-mbid'' 1], sleeps = [1]\<rparr>"
  let ?w2 = "\<lparr>sent = [setlists_request ''test-mbid'' 1, setlists_request ''test-mbid'' 2],
      sleeps = [1, 1]\<rparr>"
  let ?items = "[sample_setlist ''14-10-2023'', sample_setlist ''31-12-2022'']"
  let ?r = "page_response 400 ?items"
  let ?data = "JObj [(''setlist'', JArr ?items), (''total'', JInt 400), (''itemsPerPage'', JInt 20)]"
  have h1: "(2::int) \<le> 50" by simp
  have h2: "make_request net_older_on_second_page (setlists_request ''test-mbid'' 2) ?w1 = (Inr ?r, ?w2)"
    by code_simp
  have h3: "json_body ?r = Some ?data" by (simp add: page_response_def)
  have h4: "py_get ?data ''setlist'' (JArr []) = Inr (JArr ?items)" by (simp add: py_get_def)
  have h5: "sample_setlist ''31-12-2022'' \<in> set ?items" by simp
  have h6: "older_entry 2023 (sample_setlist ''31-12-2022'')" by code_simp
  have run: "fetch_setlists_for_year net_older_on_second_page ''test-mbid'' 2023 50 w0 =
     (Inr [JStr ''Song 1'', JStr ''Song 2'', JStr ''Song 1'', JStr ''Song 2''], ?w2)"
    by code_simp
  from fetch_stops_at_older_setlist [where net=net_older_on_second_page and w="?w1"
      and mbid="''test-mbid''" and page_num=2 and max_pages=50 and r="?r" and w'="?w2"
      and data="?data" and items="?items" and year=2023
      and setlist="sample_setlist ''31-12-2022''" and songs="[JStr ''Song 1'', JStr ''Song 2'']",
      OF h1 h2 h3 h4 h5 h6]
  have "snd (fetch_pages net_older_on_second_page ''test-mbid'' 2023 50 2
          [JStr ''Song 1'', JStr ''Song 2''] ?w1) = ?w2"
    by blast
  with h1 h2 h6 run show ?thesis by blast
qed

text \<open>
  Claim C7. At any pass of the page loop in which the page is obtained, holds setlists,
  none of them older than the target year, and carries integer \<open>total\<close> and
  \<open>itemsPerPage\<close> (defaults 0 and 20): if \<open>page_num * itemsPerPage \<ge> total\<close> the function
  returns the songs collected through this page without a further request, and otherwise
  it goes on with the next page. Beyond the page cap it returns at once without a
  request. With two pages of \<open>total = 40\<close>, \<open>itemsPerPage = 20\<close> it sends exactly the
  requests for pages 1 and 2 and returns the songs of both.
\<close>

theorem fetch_pagination_end:
  "(page_num \<le> max_pages \<and>
    make_request net (setlists_request mbid page_num) w = (Inr r, w') \<and>
    json_body r = Some data \<and>
    py_get data ''setlist'' (JArr []) = Inr (JArr items) \<and> items \<noteq> [] \<and>
    setlists_loop year items (songs, False) = Inr (songs', False) \<and>
    py_get data ''total'' (JInt 0) = Inr (JInt t) \<and>
    py_get data ''itemsPerPage'' (JInt 20) = Inr (JInt i)
    \<longrightarrow> fetch_pages net mbid year max_pages page_num songs w =
          (if page_num * i \<ge> t then (Inr songs', w')
           else fetch_pages net mbid year max_pages (page_num + 1) songs' w')) \<and>
   (max_pages < page_num \<longrightarrow>
      fetch_pages net mbid year max_pages page_num songs w = (Inr songs, w)) \<and>
   fetch_setlists_for_year net_two_pages ''test-mbid'' 2023 50 w0 =
     (Inr [JStr ''Song 1'', JStr ''Song 2'', JStr ''Song 1'', JStr ''Song 2''],
      \<lparr>sent = [setlists_request ''test-mbid'' 1, setlists_request ''test-mbid'' 2],
       sleeps = [1, 1]\<rparr>)"
proof (intro conjI impI)
  assume h: "page_num \<le> max_pages \<and>
    make_request net (setlists_request mbid page_num) w = (Inr r, w') \<and>
    json_body r = Some data \<and>
    py_get data ''setlist'' (JArr []) = Inr (JArr items) \<and> items \<noteq> [] \<and>
    setlists_loop year items (songs, False) = Inr (songs', False) \<and>
    py_get data ''total'' (JInt 0) = Inr (JInt t) \<and>
    py_get data ''itemsPerPage'' (JInt 20) = Inr (JInt i)"
  then have a1: "page_num \<le> max_pages"
    and a2: "make_request net (setlists_request mbid page_num) w = (Inr r, w')"
    and a3: "json_body r = Some data"
    and a4: "py_get data ''setlist'' (JArr []) = Inr (JArr items)" and a5: "items \<noteq> []"
    and a6: "py_get data ''total'' (JInt 0) = Inr (JInt t)"
    and a7: "py_get data ''itemsPerPage'' (JInt 20) = Inr (JInt i)"
    by simp_all
  have e: "end_of_results page_num data = Inr (t \<le> page_num * i)"
    using a6 a7 by (rule end_of_results_numbers)
  note fetch_pages_page [OF a1 a2 a3 a4 a5, of year songs]
  with h e show "fetch_pages net mbid year max_pages page_num songs w =
          (if page_num * i \<ge> t then (Inr songs', w')
           else fetch_pages net mbid year max_pages (page_num + 1) songs' w')"
    by simp
next
  assume "max_pages < page_num"
  then show "fetch_pages net mbid year max_pages page_num songs w = (Inr songs, w)"
    by (rule fetch_pages_cap)
next
  show "fetch_setlists_for_year net_two_pages ''test-mbid'' 2023 50 w0 =
     (Inr [JStr ''Song 1'', JStr ''Song 2'', JStr ''Song 1'', JStr ''Song 2''],
      \<lparr>sent = [setlists_request ''test-mbid'' 1, setlists_request ''test-mbid'' 2],
       sleeps = [1, 1]\<rparr>)"
    by code_simp
qed

theorem fetch_pagination_end_witness:
  "(2::int) \<le> 50 \<and> (2::int) * 20 \<ge> 40 \<and>
   fetch_pages net_two_pages ''test-mbid'' 2023 50 2 [JStr ''Song 1'', JStr ''Song 2'']
       \<lparr>sent = [setlists_request ''test-mbid'' 1], sleeps = [1]\<rparr> =
     (Inr [JStr ''Song 1'', JStr ''Song 2'', JStr ''Song 1'', JStr ''Song 2''],
      \<lparr>sent = [setlists_request ''test-mbid'' 1, setlists_request ''test-mbid'' 2],
       sleeps = [1, 1]\<rparr>) \<and>
   (1::int) < 2 \<and>
   fetch_pages net_two_pages ''test-mbid'' 2023 1 2 [JStr ''Song 1'', JStr ''Song 2'']
       \<lparr>sent = [setlists_request ''test-mbid'' 1], sleeps = [1]\<rparr> =
     (Inr [JStr ''Song 1'', JStr ''Song 2''],
      \<lparr>sent = [setlists_request ''test-mbid'' 1], sleeps = [1]\<rparr>)"
proof -
  let ?w1 = "\<lparr>sent = [setlists_request ''test-mbid'' 1], sleeps = [1]\<rparr>"
  let ?w2 = "\<lparr>sent = [setlists_request ''test-mbid'' 1, setlists_request ''test-mbid'' 2],
      sleeps = [1, 1]\<rparr>"
  let ?items = "[sample_setlist ''15-10-2023'']"
  let ?r = "page_response 40 ?items"
  let ?data = "JObj [(''setlist'', JArr ?items), (''total'', JInt 40), (''itemsPerPage'', JInt 20)]"
  let ?s1 = "[JStr ''Song 1'', JStr ''Song 2'']"
  let ?s2 = "[JStr ''Song 1'', JStr ''Song 2'', JStr ''Song 1'', JStr ''Song 2'']"
  have h1: "(2::int) \<le> 50" by simp
  have h2: "make_request net_two_pages (setlists_request ''test-mbid'' 2) ?w1 = (Inr ?r, ?w2)"
    by code_simp
  have h3: "json_body ?r = Some ?data" by (simp add: page_response_def)
  have h4: "py_get ?data ''setlist'' (JArr []) = Inr (JArr ?items) \<and> ?items \<noteq> []"
    by (simp add: py_get_def)
  have h5: "setlists_loop 2023 ?items (?s1, False) = Inr (?s2, False)" by code_simp
  have h6: "py_get ?data ''total'' (JInt 0) = Inr (JInt 40) \<and>
            py_get ?data ''itemsPerPage'' (JInt 20) = Inr (JInt 20)"
    by (simp add: py_get_def)
  note T = fetch_pagination_end [where net=net_two_pages and w="?w1"
      and mbid="''test-mbid''" and page_num=2 and max_pages=50 and r="?r" and w'="?w2"
      and data="?data" and items="?items" and year=2023 and songs="?s1" and songs'="?s2"
      and t=40 and i=20]
  from T h1 h2 h3 h4 h5 h6
  have a: "fetch_pages net_two_pages ''test-mbid'' 2023 50 2 ?s1 ?w1 = (Inr ?s2, ?w2)"
    by simp
  note C = fetch_pagination_end [where net=net_two_pages and w="?w1"
      and mbid="''test-mbid''" and page_num=2 and max_pages=1 and year=2023 and songs="?s1",
      THEN conjunct2, THEN conjunct1]
  from C have b: "fetch_pages net_two_pages ''test-mbid'' 2023 1 2 ?s1 ?w1 = (Inr ?s1, ?w1)"
    by simp
  from a b show ?thesis by simp
qed

end
